theory Spec2Isabelle
  imports Main "HOL-Library.Word" "HOL-Library.Sublist" "HOL-Library.Multiset"
begin

section \<open>The dictionary loader of \<open>load_dictionaries_async.py\<close>\<close>

text \<open>
  The module defines the class \<open>DictionaryLoader\<close>, a singleton whose construction reads
  eleven serialized dictionaries from disk on a pool of four worker threads and stores
  each of them as an attribute of the instance, and it ends by constructing the loader and
  binding one module-level name per dictionary.

  What the Python standard library does (\<open>open\<close>, \<open>pickle.load\<close>, \<open>bz2.BZ2File\<close>,
  \<open>len\<close>) is not part of the module: the file system and the decoders are parameters of
  the model. Wall-clock times (\<open>time.time()\<close>) are left out of the printed lines.
\<close>

subsection \<open>Paths\<close>

type_synonym path = string
type_synonym bytes = "8 word list"

text \<open>\<open>os.path.join\<close> with two arguments, \<open>os.path.basename\<close> and \<open>str.endswith\<close> (POSIX).\<close>

definition path_join :: "path \<Rightarrow> path \<Rightarrow> path" where
  "path_join a b =
     (if b \<noteq> [] \<and> hd b = CHR ''/'' then b
      else if a = [] \<or> last a = CHR ''/'' then a @ b
      else a @ ''/'' @ b)"

definition basename :: "path \<Rightarrow> string" where
  "basename p = rev (takeWhile (\<lambda>c. c \<noteq> CHR ''/'') (rev p))"

definition endswith :: "string \<Rightarrow> string \<Rightarrow> bool" where
  "endswith s suf = (length suf \<le> length s \<and> drop (length s - length suf) s = suf)"

text \<open>The attributes set by \<open>_setup_paths\<close> (lines 29-56); \<open>base\<close> is the directory of the module file.\<close>

record paths =
  base_dir :: path
  YAGO_PATH :: path
  LABEL_FILE_PATH :: path
  TYPE_FILE_PATH :: path
  CLASS_FILE_PATH :: path
  FACT_FILE_PATH :: path
  YAGO_MAIN_INVERTED_INDEX_PATH :: path
  YAGO_MAIN_RELATION_INDEX_PATH :: path
  YAGO_MAIN_PICKLE_TRIPLE_INDEX_PATH :: path
  SYNTH_TYPE_KB_PATH :: path
  SYNTH_RELATION_KB_PATH :: path
  SYNTH_TYPE_INVERTED_INDEX_PATH :: path
  SYNTH_RELATION_INVERTED_INDEX_PATH :: path

definition setup_paths :: "path \<Rightarrow> paths" where
  "setup_paths base =
     (let yago = path_join base ''yago'' in
      \<lparr> base_dir = base,
        YAGO_PATH = yago,
        LABEL_FILE_PATH = path_join yago ''yago-wd-labels_dict.pickle'',
        TYPE_FILE_PATH = path_join yago ''yago-wd-full-types_dict.pickle'',
        CLASS_FILE_PATH = path_join yago ''yago-wd-class_dict.pickle'',
        FACT_FILE_PATH = path_join yago ''yago-wd-facts_dict.pickle'',
        YAGO_MAIN_INVERTED_INDEX_PATH =
          path_join base ''santos/hashmap/dialite_datalake_main_yago_index.pickle'',
        YAGO_MAIN_RELATION_INDEX_PATH =
          path_join base ''santos/hashmap/dialite_datalake_main_relation_index.pickle'',
        YAGO_MAIN_PICKLE_TRIPLE_INDEX_PATH =
          path_join base ''santos/hashmap/dialite_datalake_main_triple_index.pickle'',
        SYNTH_TYPE_KB_PATH =
          path_join base ''santos/hashmap/dialite_datalake_synth_type_kb.pbz2'',
        SYNTH_RELATION_KB_PATH =
          path_join base ''santos/hashmap/dialite_datalake_synth_relation_kb.pbz2'',
        SYNTH_TYPE_INVERTED_INDEX_PATH =
          path_join base ''santos/hashmap/dialite_datalake_synth_type_inverted_index.pbz2'',
        SYNTH_RELATION_INVERTED_INDEX_PATH =
          path_join base ''santos/hashmap/dialite_datalake_synth_relation_inverted_index.pbz2'' \<rparr>)"

text \<open>The list \<open>load_tasks\<close> of \<open>_load_all_dictionaries\<close> (lines 60-72): path and attribute name.\<close>

definition load_tasks :: "paths \<Rightarrow> (path \<times> string) list" where
  "load_tasks ps =
     [ (LABEL_FILE_PATH ps, ''label_dict''),
       (TYPE_FILE_PATH ps, ''type_dict''),
       (CLASS_FILE_PATH ps, ''class_dict''),
       (FACT_FILE_PATH ps, ''fact_dict''),
       (YAGO_MAIN_INVERTED_INDEX_PATH ps, ''yago_inverted_index''),
       (YAGO_MAIN_RELATION_INDEX_PATH ps, ''yago_relation_index''),
       (YAGO_MAIN_PICKLE_TRIPLE_INDEX_PATH ps, ''main_index_triples''),
       (SYNTH_TYPE_KB_PATH ps, ''synth_type_kb''),
       (SYNTH_RELATION_KB_PATH ps, ''synth_relation_kb''),
       (SYNTH_TYPE_INVERTED_INDEX_PATH ps, ''synth_type_inverted_index''),
       (SYNTH_RELATION_INVERTED_INDEX_PATH ps, ''synth_relation_inverted_index'') ]"

subsection \<open>The environment: file system, decoders, exceptions, output\<close>

text \<open>
  A path is absent, or names a file whose bytes can be read, or names something that
  \<open>open\<close> (or the read after it) refuses with an \<open>OSError\<close> carrying a message:
  no permission, a directory, a transient I/O failure.
\<close>

datatype fs_entry = Readable bytes | Unreadable string

type_synonym filesystem = "path \<Rightarrow> fs_entry option"

text \<open>
  The library calls of lines 105, 107, 108 and 112. Each either returns or raises; a raise is
  \<open>Inl\<close> of the exception's message. \<open>pickle.load\<close> and \<open>_pickle.load\<close> are the same
  function. \<open>py_len\<close> is \<open>len\<close>: \<open>None\<close> for an object without a length.
\<close>

record 'v pylib =
  pickle_load :: "bytes \<Rightarrow> string + 'v"
  bz2_read :: "bytes \<Rightarrow> string + bytes"
  py_len :: "'v \<Rightarrow> nat option"

text \<open>
  The exceptions of the load path, named after the statement that raises them:
  line 101 (\<open>FileNotFoundError\<close>), \<open>open\<close> and \<open>BZ2File\<close> on an existing path
  (\<open>OSError\<close>), the decompression of line 107-108 (\<open>BZ2Error\<close>), \<open>pickle.load\<close>
  (\<open>UnpicklingError\<close>), \<open>len(data)\<close> of line 112 (\<open>TypeError\<close>), and a read of an
  attribute that was never set (\<open>AttributeError\<close>).
\<close>

datatype py_exception =
    FileNotFoundError string
  | OSError string
  | BZ2Error string
  | UnpicklingError string
  | TypeError string
  | AttributeError string

text \<open>\<open>str(e)\<close>\<close>

fun str :: "py_exception \<Rightarrow> string" where
  "str (FileNotFoundError m) = m"
| "str (OSError m) = m"
| "str (BZ2Error m) = m"
| "str (UnpicklingError m) = m"
| "str (TypeError m) = m"
| "str (AttributeError m) = m"

text \<open>What leaves a call other than a value: an exception, or \<open>SystemExit\<close> with its status.\<close>

datatype raised = SystemExit nat | Raised py_exception

text \<open>The lines printed (75, 88, 90, 94, 111, 116), without the times.\<close>

datatype printed =
    Starting
  | Loaded_in string nat
  | Critical_error string string
  | Successfully_loaded string
  | Failed_to_load string string
  | All_loaded

subsection \<open>Decoding one artifact: \<open>_load_single_dictionary\<close>\<close>

text \<open>Lines 104-105 and 107-108 on the bytes of the file.\<close>

definition load_pickle :: "'v pylib \<Rightarrow> bytes \<Rightarrow> py_exception + 'v" where
  "load_pickle lib bs =
     (case pickle_load lib bs of Inl m \<Rightarrow> Inl (UnpicklingError m) | Inr d \<Rightarrow> Inr d)"

definition load_bz2_pickle :: "'v pylib \<Rightarrow> bytes \<Rightarrow> py_exception + 'v" where
  "load_bz2_pickle lib bs =
     (case bz2_read lib bs of
        Inl m \<Rightarrow> Inl (BZ2Error m)
      | Inr raw \<Rightarrow> load_pickle lib raw)"

text \<open>
  The body of the \<open>try\<close> (lines 99-113): the existence test, the dispatch on the suffix,
  and \<open>len(data)\<close>, which the log line evaluates before the function returns.
\<close>

definition try_load :: "'v pylib \<Rightarrow> filesystem \<Rightarrow> path \<Rightarrow> py_exception + ('v \<times> nat)" where
  "try_load lib fs p =
     (case fs p of
        None \<Rightarrow> Inl (FileNotFoundError (''File not found: '' @ p))
      | Some (Unreadable m) \<Rightarrow> Inl (OSError m)
      | Some (Readable bs) \<Rightarrow>
          (case (if endswith p ''.pickle'' then load_pickle lib bs else load_bz2_pickle lib bs) of
             Inl e \<Rightarrow> Inl e
           | Inr d \<Rightarrow>
               (case py_len lib d of
                  None \<Rightarrow> Inl (TypeError ''object has no len()'')
                | Some n \<Rightarrow> Inr (d, n))))"

text \<open>What the caller of the task receives: the value returned, or the exception re-raised by line 117.\<close>

definition load_result :: "'v pylib \<Rightarrow> filesystem \<Rightarrow> path \<Rightarrow> py_exception + 'v" where
  "load_result lib fs p = (case try_load lib fs p of Inl e \<Rightarrow> Inl e | Inr (d, n) \<Rightarrow> Inr d)"

text \<open>The line the task prints: 111 on success, 116 in the handler.\<close>

definition load_line :: "'v pylib \<Rightarrow> filesystem \<Rightarrow> path \<Rightarrow> printed" where
  "load_line lib fs p =
     (case try_load lib fs p of
        Inl e \<Rightarrow> Critical_error (basename p) (str e)
      | Inr (d, n) \<Rightarrow> Loaded_in (basename p) n)"

subsection \<open>The loader object and the interpreter state\<close>

text \<open>
  An instance of \<open>DictionaryLoader\<close>: the dictionaries stored by \<open>setattr\<close> (line 87) under
  their attribute names, and \<open>_loaded\<close>, which an instance reads from the class (\<open>False\<close>)
  until line 27 sets it on the instance. The path attributes are not kept on the object:
  they are the values of \<open>setup_paths\<close> at the base directory and never change.
\<close>

record 'v loader =
  attrs :: "string \<rightharpoonup> 'v"
  loaded :: bool

definition empty_loader :: "'v loader" where
  "empty_loader = \<lparr> attrs = Map.empty, loaded = False \<rparr>"

text \<open>
  The state the module acts on: the class attribute \<open>_instance\<close> (a reference, \<open>None\<close> at
  first), the objects by reference, the next unused reference, what has been printed, and
  the paths given to \<open>open\<close> or \<open>BZ2File\<close> so far.
\<close>

record 'v state =
  cls_instance :: "nat option"
  heap :: "nat \<Rightarrow> 'v loader"
  next_id :: nat
  stdout :: "printed list"
  opened :: "path list"

definition init_state :: "'v state" where
  "init_state = \<lparr> cls_instance = None, heap = (\<lambda>_. empty_loader), next_id = 0,
                  stdout = [], opened = [] \<rparr>"

definition py_print :: "printed \<Rightarrow> 'v state \<Rightarrow> 'v state" where
  "py_print l s = s\<lparr> stdout := stdout s @ [l] \<rparr>"

definition setattr :: "nat \<Rightarrow> string \<Rightarrow> 'v \<Rightarrow> 'v state \<Rightarrow> 'v state" where
  "setattr ob a d s =
     s\<lparr> heap := (heap s)(ob := (heap s ob)\<lparr> attrs := (attrs (heap s ob))(a \<mapsto> d) \<rparr>) \<rparr>"

definition set_loaded :: "nat \<Rightarrow> 'v state \<Rightarrow> 'v state" where
  "set_loaded ob s = s\<lparr> heap := (heap s)(ob := (heap s ob)\<lparr> loaded := True \<rparr>) \<rparr>"

text \<open>Reading an attribute of an object: \<open>AttributeError\<close> when it was never set.\<close>

definition getattr :: "'v loader \<Rightarrow> string \<Rightarrow> py_exception + 'v" where
  "getattr l k = (case attrs l k of None \<Rightarrow> Inl (AttributeError k) | Some v \<Rightarrow> Inr v)"

subsection \<open>The batch: \<open>_load_all_dictionaries\<close>\<close>

text \<open>
  What a worker thread does to the state when it executes one submitted task: the file, if
  it exists, is opened, and the task prints its line.
\<close>

definition run_task :: "'v pylib \<Rightarrow> filesystem \<Rightarrow> path \<Rightarrow> 'v state \<Rightarrow> 'v state" where
  "run_task lib fs p s =
     py_print (load_line lib fs p)
       (s\<lparr> opened := opened s @ (if fs p = None then [] else [p]) \<rparr>)"

text \<open>
  Lines 84-91, one iteration of the loop over \<open>as_completed(futures)\<close> for a future that
  is done: \<open>future.result()\<close> returns the task's value or re-raises its exception.
\<close>

definition handle_completion ::
    "'v pylib \<Rightarrow> filesystem \<Rightarrow> nat \<Rightarrow> path \<times> string \<Rightarrow> 'v state \<Rightarrow> (raised + unit) \<times> 'v state" where
  "handle_completion lib fs self t s =
     (case load_result lib fs (fst t) of
        Inr data \<Rightarrow>
          (Inr (), py_print (Successfully_loaded (basename (fst t))) (setattr self (snd t) data s))
      | Inl e \<Rightarrow>
          (Inl (SystemExit 1), py_print (Failed_to_load (basename (fst t)) (str e)) s))"

text \<open>
  Leaving the \<open>with ThreadPoolExecutor\<close> block by an exception runs the executor's
  \<open>shutdown(wait=True)\<close>: nothing is cancelled, the tasks still queued or running are
  executed to their end, and only then does the exception travel on.
\<close>

definition shutdown_wait :: "'v pylib \<Rightarrow> filesystem \<Rightarrow> path list \<Rightarrow> 'v state \<Rightarrow> 'v state" where
  "shutdown_wait lib fs ps s = fold (run_task lib fs) ps s"

text \<open>
  The loop of lines 83-91 over the futures in the order in which they complete. The printed
  lines of the workers and of the loop are interleaved in one of the orders the threads can
  produce: each task prints just before the loop handles its future.
\<close>

fun as_completed_loop ::
    "'v pylib \<Rightarrow> filesystem \<Rightarrow> nat \<Rightarrow> (path \<times> string) list \<Rightarrow> 'v state \<Rightarrow> (raised + unit) \<times> 'v state" where
  "as_completed_loop lib fs self [] s = (Inr (), s)"
| "as_completed_loop lib fs self (t # rest) s =
     (case handle_completion lib fs self t (run_task lib fs (fst t) s) of
        (Inr u, s') \<Rightarrow> as_completed_loop lib fs self rest s'
      | (Inl x, s') \<Rightarrow> (Inl x, shutdown_wait lib fs (map fst rest) s'))"

text \<open>
  \<open>_load_all_dictionaries\<close> (lines 58-94). \<open>sched\<close> is the order of completion: it maps
  the submitted tasks to the sequence in which \<open>as_completed\<close> yields their futures.
\<close>

definition load_all_dictionaries ::
    "'v pylib \<Rightarrow> filesystem \<Rightarrow> ((path \<times> string) list \<Rightarrow> (path \<times> string) list) \<Rightarrow> paths \<Rightarrow> nat \<Rightarrow>
     'v state \<Rightarrow> (raised + unit) \<times> 'v state" where
  "load_all_dictionaries lib fs sched ps self s =
     (case as_completed_loop lib fs self (sched (load_tasks ps)) (py_print Starting s) of
        (Inr u, s') \<Rightarrow> (Inr (), py_print All_loaded s')
      | (Inl x, s') \<Rightarrow> (Inl x, s'))"

subsection \<open>The singleton: \<open>_initialize\<close>, \<open>__new__\<close>, the accessors\<close>

text \<open>\<open>_initialize\<close> (lines 22-27).\<close>

definition initialize ::
    "'v pylib \<Rightarrow> filesystem \<Rightarrow> ((path \<times> string) list \<Rightarrow> (path \<times> string) list) \<Rightarrow> path \<Rightarrow> nat \<Rightarrow>
     'v state \<Rightarrow> (raised + unit) \<times> 'v state" where
  "initialize lib fs sched base self s =
     (if loaded (heap s self) then (Inr (), s)
      else (case load_all_dictionaries lib fs sched (setup_paths base) self s of
              (Inl x, s') \<Rightarrow> (Inl x, s')
            | (Inr u, s') \<Rightarrow> (Inr (), set_loaded self s')))"

text \<open>
  \<open>DictionaryLoader()\<close>, that is \<open>__new__\<close> (lines 16-20), run by one caller without
  interruption: line 18 creates the object and stores it in \<open>_instance\<close> before line 19
  initializes it.
\<close>

definition DictionaryLoader_new ::
    "'v pylib \<Rightarrow> filesystem \<Rightarrow> ((path \<times> string) list \<Rightarrow> (path \<times> string) list) \<Rightarrow> path \<Rightarrow>
     'v state \<Rightarrow> (raised + nat) \<times> 'v state" where
  "DictionaryLoader_new lib fs sched base s =
     (case cls_instance s of
        Some ob \<Rightarrow> (Inr ob, s)
      | None \<Rightarrow>
          (let ob = next_id s;
               s1 = s\<lparr> cls_instance := Some ob,
                       heap := (heap s)(ob := empty_loader),
                       next_id := Suc ob \<rparr>
           in case initialize lib fs sched base ob s1 of
                (Inl x, s') \<Rightarrow> (Inl x, s')
              | (Inr u, s') \<Rightarrow> (Inr ob, s')))"

text \<open>Reading several attributes in turn; the first one missing raises.\<close>

fun getattrs :: "'v loader \<Rightarrow> string list \<Rightarrow> py_exception + (string \<times> 'v) list" where
  "getattrs l [] = Inr []"
| "getattrs l (k # ks) =
     (case getattr l k of
        Inl e \<Rightarrow> Inl e
      | Inr v \<Rightarrow> (case getattrs l ks of Inl e \<Rightarrow> Inl e | Inr kvs \<Rightarrow> Inr ((k, v) # kvs)))"

text \<open>The property \<open>all_dictionaries\<close> (lines 119-134): a dict with these keys, in this order.\<close>

definition snapshot_keys :: "string list" where
  "snapshot_keys =
     [ ''label_dict'', ''type_dict'', ''class_dict'', ''fact_dict'',
       ''yago_inverted_index'', ''yago_relation_index'', ''main_index_triples'',
       ''synth_type_kb'', ''synth_relation_kb'',
       ''synth_type_inverted_index'', ''synth_relation_inverted_index'' ]"

definition all_dictionaries :: "'v loader \<Rightarrow> py_exception + (string \<times> 'v) list" where
  "all_dictionaries l = getattrs l snapshot_keys"



subsection \<open>Several callers of \<open>DictionaryLoader()\<close>\<close>

text \<open>
  The module takes no lock, so a second thread can run between any two statements of a
  caller. A caller of \<open>DictionaryLoader()\<close> is at one of these points: before the test of
  line 17, before the assignment of line 18, before the call of line 19 (which reads
  \<open>cls._instance\<close> again), at the test of line 24 with \<open>self\<close> bound, in the loop of lines
  83-91 with the futures not yet yielded, before line 27, before the \<open>return\<close> of line 20;
  or it has returned what \<open>cls._instance\<close> held, or it has been stopped by an exception.
\<close>

datatype pc =
    New_check
  | New_create
  | New_init
  | Init_check nat
  | Loading nat "(path \<times> string) list"
  | Set_loaded nat
  | New_return
  | Returned "nat option"
  | Stopped raised

text \<open>One statement of one caller. The statements are those of the functions above.\<close>

fun thread_step ::
    "'v pylib \<Rightarrow> filesystem \<Rightarrow> ((path \<times> string) list \<Rightarrow> (path \<times> string) list) \<Rightarrow> path \<Rightarrow>
     pc \<Rightarrow> 'v state \<Rightarrow> pc \<times> 'v state" where
  "thread_step lib fs sched base New_check s =
     (if cls_instance s = None then (New_create, s) else (New_return, s))"
| "thread_step lib fs sched base New_create s =
     (New_init, s\<lparr> cls_instance := Some (next_id s),
                   heap := (heap s)(next_id s := empty_loader),
                   next_id := Suc (next_id s) \<rparr>)"
| "thread_step lib fs sched base New_init s =
     (case cls_instance s of
        Some ob \<Rightarrow> (Init_check ob, s)
      | None \<Rightarrow> (Stopped (Raised (AttributeError ''_initialize'')), s))"
| "thread_step lib fs sched base (Init_check self) s =
     (if loaded (heap s self) then (New_return, s)
      else (Loading self (sched (load_tasks (setup_paths base))), py_print Starting s))"
| "thread_step lib fs sched base (Loading self []) s =
     (Set_loaded self, py_print All_loaded s)"
| "thread_step lib fs sched base (Loading self (t # rest)) s =
     (case handle_completion lib fs self t (run_task lib fs (fst t) s) of
        (Inr u, s') \<Rightarrow> (Loading self rest, s')
      | (Inl x, s') \<Rightarrow> (Stopped x, shutdown_wait lib fs (map fst rest) s'))"
| "thread_step lib fs sched base (Set_loaded self) s = (New_return, set_loaded self s)"
| "thread_step lib fs sched base New_return s = (Returned (cls_instance s), s)"
| "thread_step lib fs sched base (Returned r) s = (Returned r, s)"
| "thread_step lib fs sched base (Stopped x) s = (Stopped x, s)"

text \<open>
  The callers and the state they share. A run is a list of thread numbers: the thread
  named next executes one statement. Each thread has its own order of completion.
\<close>

record 'v config =
  shared :: "'v state"
  pcs :: "pc list"

definition start :: "nat \<Rightarrow> 'v config" where
  "start n = \<lparr> shared = init_state, pcs = replicate n New_check \<rparr>"

definition sched_step ::
    "'v pylib \<Rightarrow> filesystem \<Rightarrow> (nat \<Rightarrow> (path \<times> string) list \<Rightarrow> (path \<times> string) list) \<Rightarrow> path \<Rightarrow>
     nat \<Rightarrow> 'v config \<Rightarrow> 'v config" where
  "sched_step lib fs scheds base i c =
     (if i < length (pcs c)
      then (case thread_step lib fs (scheds i) base (pcs c ! i) (shared c) of
              (pc', s') \<Rightarrow> \<lparr> shared = s', pcs = (pcs c)[i := pc'] \<rparr>)
      else c)"

definition run_threads ::
    "'v pylib \<Rightarrow> filesystem \<Rightarrow> (nat \<Rightarrow> (path \<times> string) list \<Rightarrow> (path \<times> string) list) \<Rightarrow> path \<Rightarrow>
     nat list \<Rightarrow> 'v config \<Rightarrow> 'v config" where
  "run_threads lib fs scheds base run c = fold (sched_step lib fs scheds base) run c"

subsection \<open>Notions used in the statements\<close>

text \<open>The base directory as \<open>os.path.join\<close> prefixes it to a relative name.\<close>

definition as_dir :: "path \<Rightarrow> path" where
  "as_dir base = (if base = [] \<or> last base = CHR ''/'' then base else base @ ''/'')"

text \<open>An order of completion yields every submitted future once.\<close>

definition completes :: "((path \<times> string) list \<Rightarrow> (path \<times> string) list) \<Rightarrow> path \<Rightarrow> bool" where
  "completes sched base =
     (mset (sched (load_tasks (setup_paths base))) = mset (load_tasks (setup_paths base)))"

text \<open>The attribute names of the tasks, and an object that holds a dictionary for each.\<close>

definition logical_keys :: "path \<Rightarrow> string list" where
  "logical_keys base = map snd (load_tasks (setup_paths base))"

definition fully_populated :: "path \<Rightarrow> 'v loader \<Rightarrow> bool" where
  "fully_populated base l = list_all (\<lambda>k. attrs l k \<noteq> None) (logical_keys base)"

text \<open>Some task of the batch fails; every task of the batch succeeds.\<close>

definition some_load_fails :: "'v pylib \<Rightarrow> filesystem \<Rightarrow> path \<Rightarrow> bool" where
  "some_load_fails lib fs base =
     list_ex (\<lambda>t. isl (load_result lib fs (fst t))) (load_tasks (setup_paths base))"





subsection \<open>A small environment to run the definitions on\<close>

text \<open>
  A stand-in for the two decoders, for evaluating the model on concrete inputs only: the
  pickle of a byte string is the byte string itself (the empty input does not decode), and
  a compressed stream is its content after the byte \<open>0x42\<close>.
\<close>

definition demo_lib :: "bytes pylib" where
  "demo_lib =
     \<lparr> pickle_load = (\<lambda>bs. if bs = [] then Inl ''Ran out of input'' else Inr bs),
       bz2_read = (\<lambda>bs. case bs of
                           [] \<Rightarrow> Inl ''Compressed file ended before the end-of-stream marker was reached''
                         | b # rest \<Rightarrow> if b = 0x42 then Inr rest else Inl ''Invalid data stream''),
       py_len = (\<lambda>d. Some (length d)) \<rparr>"

text \<open>Every path holds the same three bytes; one path removed; one path holding other bytes.\<close>

definition demo_fs :: filesystem where
  "demo_fs = (\<lambda>p. Some (Readable [0x42, 1, 2]))"

definition demo_fs_without :: "path \<Rightarrow> filesystem" where
  "demo_fs_without p = demo_fs(p := None)"

definition demo_fs_with :: "path \<Rightarrow> fs_entry \<Rightarrow> filesystem" where
  "demo_fs_with p f = demo_fs(p \<mapsto> f)"

definition in_order :: "(path \<times> string) list \<Rightarrow> (path \<times> string) list" where
  "in_order ts = ts"



definition race_run :: "bytes config" where
  "race_run =
     run_threads demo_lib demo_fs (\<lambda>_. in_order) ''/d''
       ([0, 1] @ replicate 16 0 @ replicate 16 1 @ [0, 1]) (start 2)"

section \<open>Properties of the codec\<close>

subsection \<open>Suffixes\<close>

lemma endswith_last: "endswith s suf \<Longrightarrow> suf \<noteq> [] \<Longrightarrow> last s = last suf"
  unfolding endswith_def
  by (metis last_drop drop_eq_Nil not_le)

lemma pbz2_not_pickle: "endswith p ''.pbz2'' \<Longrightarrow> \<not> endswith p ''.pickle''"
  using endswith_last [of p "''.pbz2''"] endswith_last [of p "''.pickle''"] by auto

subsection \<open>Dispatch on the format\<close>

text \<open>
  C5. The format is signalled by the file extension. For a file whose bytes can be read, a
  path ending in \<open>.pickle\<close> (Raw) is deserialized directly from the bytes of the file, and
  a path ending in \<open>.pbz2\<close> (Compressed) is first decompressed and the decompressed bytes
  are then deserialized. In both cases the object is returned as it was deserialized,
  after \<open>len\<close> has been taken of it for the log line.
\<close>

theorem codec_format_dispatch:
  assumes "fs p = Some (Readable bs)"
  shows "(endswith p ''.pickle'' \<longrightarrow>
            load_result lib fs p =
              (case pickle_load lib bs of
                 Inl m \<Rightarrow> Inl (UnpicklingError m)
               | Inr d \<Rightarrow> (case py_len lib d of
                             None \<Rightarrow> Inl (TypeError ''object has no len()'')
                           | Some n \<Rightarrow> Inr d)))
       \<and> (endswith p ''.pbz2'' \<longrightarrow>
            load_result lib fs p =
              (case bz2_read lib bs of
                 Inl m \<Rightarrow> Inl (BZ2Error m)
               | Inr raw \<Rightarrow>
                   (case pickle_load lib raw of
                      Inl m \<Rightarrow> Inl (UnpicklingError m)
                    | Inr d \<Rightarrow> (case py_len lib d of
                                  None \<Rightarrow> Inl (TypeError ''object has no len()'')
                                | Some n \<Rightarrow> Inr d))))"
  using assms pbz2_not_pickle [of p]
  by (auto simp: load_result_def try_load_def load_pickle_def load_bz2_pickle_def
           split: sum.splits option.splits)

theorem codec_format_dispatch_witness:
  "demo_fs ''/d/a.pickle'' = Some (Readable [0x42, 1, 2])
   \<and> endswith ''/d/a.pickle'' ''.pickle''
   \<and> load_result demo_lib demo_fs ''/d/a.pickle'' = Inr [0x42, 1, 2]
   \<and> demo_fs ''/d/a.pbz2'' = Some (Readable [0x42, 1, 2])
   \<and> endswith ''/d/a.pbz2'' ''.pbz2''
   \<and> load_result demo_lib demo_fs ''/d/a.pbz2'' = Inr [1, 2]"
proof -
  have f1: "demo_fs ''/d/a.pickle'' = Some (Readable [0x42, 1, 2])"
    and f2: "demo_fs ''/d/a.pbz2'' = Some (Readable [0x42, 1, 2])"
    by (simp_all add: demo_fs_def)
  have e1: "endswith ''/d/a.pickle'' ''.pickle''" and e2: "endswith ''/d/a.pbz2'' ''.pbz2''"
    by (simp_all add: endswith_def)
  from codec_format_dispatch [of demo_fs "''/d/a.pickle''" "[0x42, 1, 2]" demo_lib, OF f1] e1
  have r1: "load_result demo_lib demo_fs ''/d/a.pickle'' = Inr [0x42, 1, 2]"
    by (simp add: demo_lib_def)
  from codec_format_dispatch [of demo_fs "''/d/a.pbz2''" "[0x42, 1, 2]" demo_lib, OF f2] e2
  have r2: "load_result demo_lib demo_fs ''/d/a.pbz2'' = Inr [1, 2]"
    by (simp add: demo_lib_def)
  from f1 f2 e1 e2 r1 r2 show ?thesis by blast
qed



subsection \<open>Errors of a single load\<close>



section \<open>Properties of the batch\<close>

subsection \<open>Effects of the statements\<close>

lemma py_print_simps:
  "stdout (py_print l s) = stdout s @ [l]"
  "opened (py_print l s) = opened s"
  "heap (py_print l s) = heap s"
  "cls_instance (py_print l s) = cls_instance s"
  "next_id (py_print l s) = next_id s"
  by (simp_all add: py_print_def)

lemma setattr_simps:
  "stdout (setattr ob a d s) = stdout s"
  "opened (setattr ob a d s) = opened s"
  "cls_instance (setattr ob a d s) = cls_instance s"
  "next_id (setattr ob a d s) = next_id s"
  "heap (setattr ob a d s) ob' =
     (if ob' = ob then (heap s ob)\<lparr> attrs := (attrs (heap s ob))(a \<mapsto> d) \<rparr> else heap s ob')"
  by (simp_all add: setattr_def)

lemma set_loaded_simps:
  "stdout (set_loaded ob s) = stdout s"
  "opened (set_loaded ob s) = opened s"
  "cls_instance (set_loaded ob s) = cls_instance s"
  "next_id (set_loaded ob s) = next_id s"
  "heap (set_loaded ob s) ob' = (if ob' = ob then (heap s ob)\<lparr> loaded := True \<rparr> else heap s ob')"
  by (simp_all add: set_loaded_def)

lemma run_task_simps:
  "stdout (run_task lib fs p s) = stdout s @ [load_line lib fs p]"
  "opened (run_task lib fs p s) = opened s @ (if fs p = None then [] else [p])"
  "heap (run_task lib fs p s) = heap s"
  "cls_instance (run_task lib fs p s) = cls_instance s"
  "next_id (run_task lib fs p s) = next_id s"
  by (simp_all add: run_task_def py_print_def)

lemma shutdown_wait_simps:
  "stdout (shutdown_wait lib fs ps s) = stdout s @ map (load_line lib fs) ps"
  "opened (shutdown_wait lib fs ps s) = opened s @ filter (\<lambda>p. fs p \<noteq> None) ps"
  "heap (shutdown_wait lib fs ps s) = heap s"
  "cls_instance (shutdown_wait lib fs ps s) = cls_instance s"
  "next_id (shutdown_wait lib fs ps s) = next_id s"
  unfolding shutdown_wait_def
  by (induction ps arbitrary: s; simp add: run_task_simps)+

lemma handle_completion_ok:
  "load_result lib fs (fst t) = Inr d \<Longrightarrow>
   handle_completion lib fs self t s =
     (Inr (), py_print (Successfully_loaded (basename (fst t))) (setattr self (snd t) d s))"
  by (simp add: handle_completion_def)

lemma handle_completion_fail:
  "load_result lib fs (fst t) = Inl e \<Longrightarrow>
   handle_completion lib fs self t s =
     (Inl (SystemExit 1), py_print (Failed_to_load (basename (fst t)) (str e)) s)"
  by (simp add: handle_completion_def)

text \<open>One step of the loop, by the outcome of the task.\<close>

lemma loop_Cons_ok:
  "load_result lib fs (fst t) = Inr d \<Longrightarrow>
   as_completed_loop lib fs self (t # rest) s =
     as_completed_loop lib fs self rest
       (py_print (Successfully_loaded (basename (fst t)))
          (setattr self (snd t) d (run_task lib fs (fst t) s)))"
  by (simp add: handle_completion_ok)

lemma loop_Cons_fail:
  "load_result lib fs (fst t) = Inl e \<Longrightarrow>
   as_completed_loop lib fs self (t # rest) s =
     (Inl (SystemExit 1),
      shutdown_wait lib fs (map fst rest)
        (py_print (Failed_to_load (basename (fst t)) (str e)) (run_task lib fs (fst t) s)))"
  by (simp add: handle_completion_fail)

lemma loop_result:
  "fst (as_completed_loop lib fs self ts s) =
     (if list_ex (\<lambda>t. isl (load_result lib fs (fst t))) ts then Inl (SystemExit 1) else Inr ())"
proof (induction ts arbitrary: s)
  case Nil
  show ?case by simp
next
  case (Cons t rest)
  show ?case
  proof (cases "load_result lib fs (fst t)")
    case (Inl e)
    then show ?thesis by (simp add: loop_Cons_fail del: as_completed_loop.simps)
  next
    case (Inr d)
    then show ?thesis by (simp add: loop_Cons_ok Cons.IH del: as_completed_loop.simps)
  qed
qed

lemma loop_frame:
  "opened (snd (as_completed_loop lib fs self ts s)) = opened s @ filter (\<lambda>p. fs p \<noteq> None) (map fst ts)"
  "cls_instance (snd (as_completed_loop lib fs self ts s)) = cls_instance s"
  "next_id (snd (as_completed_loop lib fs self ts s)) = next_id s"
proof (induction ts arbitrary: s)
  case Nil
  { case 1 show ?case by simp }
  { case 2 show ?case by simp }
  { case 3 show ?case by simp }
next
  case (Cons t rest)
  { case 1 show ?case
      by (cases "load_result lib fs (fst t)")
         (simp_all add: loop_Cons_fail loop_Cons_ok Cons.IH shutdown_wait_simps py_print_simps
                        setattr_simps run_task_simps del: as_completed_loop.simps) }
  { case 2 show ?case
      by (cases "load_result lib fs (fst t)")
         (simp_all add: loop_Cons_fail loop_Cons_ok Cons.IH shutdown_wait_simps py_print_simps
                        setattr_simps run_task_simps del: as_completed_loop.simps) }
  { case 3 show ?case
      by (cases "load_result lib fs (fst t)")
         (simp_all add: loop_Cons_fail loop_Cons_ok Cons.IH shutdown_wait_simps py_print_simps
                        setattr_simps run_task_simps del: as_completed_loop.simps) }
qed




lemma loop_heap_other:
  "ob \<noteq> self \<Longrightarrow> heap (snd (as_completed_loop lib fs self ts s)) ob = heap s ob"
proof (induction ts arbitrary: s)
  case Nil
  show ?case by simp
next
  case (Cons u rest)
  show ?case
    by (cases "load_result lib fs (fst u)")
       (simp_all add: loop_Cons_fail loop_Cons_ok Cons shutdown_wait_simps py_print_simps
                      setattr_simps run_task_simps del: as_completed_loop.simps)
qed




lemma first_failure:
  assumes "list_ex (\<lambda>t. isl (load_result lib fs (fst t))) ts"
  shows "\<exists>pre t post e. ts = pre @ t # post
           \<and> (\<forall>u\<in>set pre. \<not> isl (load_result lib fs (fst u)))
           \<and> load_result lib fs (fst t) = Inl e"
proof -
  from assms have "\<exists>x\<in>set ts. isl (load_result lib fs (fst x))" by (simp add: list_ex_iff)
  from split_list_first_prop [OF this]
  obtain pre t post where "ts = pre @ t # post" "isl (load_result lib fs (fst t))"
    "\<forall>u\<in>set pre. \<not> isl (load_result lib fs (fst u))" by blast
  moreover then obtain e where "load_result lib fs (fst t) = Inl e"
    by (cases "load_result lib fs (fst t)") auto
  ultimately show ?thesis by blast
qed

subsection \<open>The declared tasks\<close>

lemma load_tasks_eq:
  "load_tasks (setup_paths base) =
     [ (as_dir base @ ''yago/yago-wd-labels_dict.pickle'', ''label_dict''),
       (as_dir base @ ''yago/yago-wd-full-types_dict.pickle'', ''type_dict''),
       (as_dir base @ ''yago/yago-wd-class_dict.pickle'', ''class_dict''),
       (as_dir base @ ''yago/yago-wd-facts_dict.pickle'', ''fact_dict''),
       (as_dir base @ ''santos/hashmap/dialite_datalake_main_yago_index.pickle'', ''yago_inverted_index''),
       (as_dir base @ ''santos/hashmap/dialite_datalake_main_relation_index.pickle'', ''yago_relation_index''),
       (as_dir base @ ''santos/hashmap/dialite_datalake_main_triple_index.pickle'', ''main_index_triples''),
       (as_dir base @ ''santos/hashmap/dialite_datalake_synth_type_kb.pbz2'', ''synth_type_kb''),
       (as_dir base @ ''santos/hashmap/dialite_datalake_synth_relation_kb.pbz2'', ''synth_relation_kb''),
       (as_dir base @ ''santos/hashmap/dialite_datalake_synth_type_inverted_index.pbz2'', ''synth_type_inverted_index''),
       (as_dir base @ ''santos/hashmap/dialite_datalake_synth_relation_inverted_index.pbz2'', ''synth_relation_inverted_index'') ]"
  by (simp add: load_tasks_def setup_paths_def path_join_def as_dir_def Let_def)

lemma logical_keys_eq: "logical_keys base = snapshot_keys"
  by (simp add: logical_keys_def load_tasks_eq snapshot_keys_def)

lemma distinct_snapshot_keys: "distinct snapshot_keys"
  by (simp add: snapshot_keys_def)

lemma distinct_logical_keys: "distinct (logical_keys base)"
  by (simp add: logical_keys_eq distinct_snapshot_keys)

lemma distinct_task_paths: "distinct (map fst (load_tasks (setup_paths base)))"
  by (simp add: load_tasks_eq)

lemma prefix_as_dir: "prefix base (as_dir base @ c)"
  by (simp add: as_dir_def prefix_def)

lemma task_paths_under_base: "t \<in> set (load_tasks (setup_paths base)) \<Longrightarrow> prefix base (fst t)"
  by (auto simp add: load_tasks_eq prefix_as_dir)

lemma endswith_append: "length suf \<le> length c \<Longrightarrow> endswith (a @ c) suf = endswith c suf"
  by (simp add: endswith_def)

subsection \<open>The attributes stored by the loop\<close>

lemma loop_attrs_other:
  "k \<notin> snd ` set ts \<Longrightarrow>
   attrs (heap (snd (as_completed_loop lib fs self ts s)) self) k = attrs (heap s self) k"
proof (induction ts arbitrary: s)
  case Nil
  show ?case by simp
next
  case (Cons u rest)
  then have k: "k \<noteq> snd u" "k \<notin> snd ` set rest" by auto
  show ?case
    by (cases "load_result lib fs (fst u)")
       (simp_all add: loop_Cons_fail loop_Cons_ok Cons.IH [OF k(2)] k(1) shutdown_wait_simps
                      py_print_simps setattr_simps run_task_simps del: as_completed_loop.simps)
qed


lemma loop_attrs_stored:
  assumes "\<forall>t\<in>set ts. \<not> isl (load_result lib fs (fst t))"
    and "distinct (map snd ts)"
    and "t \<in> set ts"
    and "load_result lib fs (fst t) = Inr d"
  shows "attrs (heap (snd (as_completed_loop lib fs self ts s)) self) (snd t) = Some d"
  using assms
proof (induction ts arbitrary: s)
  case Nil
  then show ?case by simp
next
  case (Cons u rest)
  from Cons.prems(1) obtain d' where d': "load_result lib fs (fst u) = Inr d'"
    by (cases "load_result lib fs (fst u)") auto
  let ?s1 = "py_print (Successfully_loaded (basename (fst u)))
               (setattr self (snd u) d' (run_task lib fs (fst u) s))"
  have step: "as_completed_loop lib fs self (u # rest) s = as_completed_loop lib fs self rest ?s1"
    using d' by (rule loop_Cons_ok)
  show ?case
  proof (cases "t = u")
    case True
    with Cons.prems(2) have "snd t \<notin> snd ` set rest" by auto
    from loop_attrs_other [OF this, of lib fs self ?s1] True d' Cons.prems(4) show ?thesis
      by (simp add: step py_print_simps setattr_simps run_task_simps del: as_completed_loop.simps)
  next
    case False
    with Cons.prems have "t \<in> set rest" "\<forall>t\<in>set rest. \<not> isl (load_result lib fs (fst t))"
      "distinct (map snd rest)" by auto
    from Cons.IH [OF this(2) this(3) this(1) Cons.prems(4), of ?s1] show ?thesis
      by (simp add: step del: as_completed_loop.simps)
  qed
qed

subsection \<open>The first construction of the loader\<close>

lemma completes_set:
  "completes sched base \<Longrightarrow>
   set (sched (load_tasks (setup_paths base))) = set (load_tasks (setup_paths base))"
  unfolding completes_def by (rule mset_eq_setD)

lemma completes_fails:
  "completes sched base \<Longrightarrow>
   list_ex (\<lambda>t. isl (load_result lib fs (fst t))) (sched (load_tasks (setup_paths base)))
     = some_load_fails lib fs base"
  by (simp add: some_load_fails_def list_ex_iff completes_set)

lemma completes_distinct:
  "completes sched base \<Longrightarrow> distinct (map snd (sched (load_tasks (setup_paths base))))"
proof -
  assume "completes sched base"
  then have "mset (map snd (sched (load_tasks (setup_paths base))))
               = mset (map snd (load_tasks (setup_paths base)))"
    by (simp add: completes_def)
  then show ?thesis
    using distinct_logical_keys [of base]
    by (metis logical_keys_def mset_eq_imp_distinct_iff)
qed

text \<open>The state in which line 19 starts, and \<open>__new__\<close> in terms of the loop.\<close>

lemma new_unfold:
  assumes "cls_instance s = None"
  shows "DictionaryLoader_new lib fs sched base s =
     (case as_completed_loop lib fs (next_id s) (sched (load_tasks (setup_paths base)))
             (py_print Starting
                (s\<lparr> cls_instance := Some (next_id s),
                     heap := (heap s)(next_id s := empty_loader),
                     next_id := Suc (next_id s) \<rparr>)) of
        (Inr u, s') \<Rightarrow> (Inr (next_id s), set_loaded (next_id s) (py_print All_loaded s'))
      | (Inl x, s') \<Rightarrow> (Inl x, s'))"
  using assms
  by (simp add: DictionaryLoader_new_def initialize_def load_all_dictionaries_def Let_def
                empty_loader_def py_print_simps split: prod.splits sum.splits)

lemma new_again: "cls_instance s = Some ob \<Longrightarrow> DictionaryLoader_new lib fs sched base s = (Inr ob, s)"
  by (simp add: DictionaryLoader_new_def)


lemma new_fails:
  assumes "completes sched base" and "some_load_fails lib fs base" and "cls_instance s = None"
  shows "DictionaryLoader_new lib fs sched base s =
     (Inl (SystemExit 1),
      snd (as_completed_loop lib fs (next_id s) (sched (load_tasks (setup_paths base)))
             (py_print Starting
                (s\<lparr> cls_instance := Some (next_id s),
                     heap := (heap s)(next_id s := empty_loader),
                     next_id := Suc (next_id s) \<rparr>))))"
proof -
  let ?s1 = "py_print Starting
                (s\<lparr> cls_instance := Some (next_id s),
                     heap := (heap s)(next_id s := empty_loader),
                     next_id := Suc (next_id s) \<rparr>)"
  have "fst (as_completed_loop lib fs (next_id s) (sched (load_tasks (setup_paths base))) ?s1)
          = Inl (SystemExit 1)"
    using assms(1,2) by (simp add: loop_result completes_fails)
  then show ?thesis
    by (cases "as_completed_loop lib fs (next_id s) (sched (load_tasks (setup_paths base))) ?s1")
       (simp add: new_unfold [OF assms(3)])
qed





subsection \<open>A construction in which every load succeeds\<close>

lemma task_key_unique:
  assumes "t \<in> set (load_tasks (setup_paths base))" and "u \<in> set (load_tasks (setup_paths base))"
    and "snd u = snd t"
  shows "u = t"
proof -
  have "inj_on snd (set (load_tasks (setup_paths base)))"
    using distinct_logical_keys [of base] by (simp add: logical_keys_def distinct_map)
  with assms show ?thesis by (auto dest: inj_onD)
qed

lemma new_succeeds:
  assumes "completes sched base" and "\<not> some_load_fails lib fs base" and "cls_instance s = None"
  shows "DictionaryLoader_new lib fs sched base s =
     (Inr (next_id s),
      set_loaded (next_id s) (py_print All_loaded
        (snd (as_completed_loop lib fs (next_id s) (sched (load_tasks (setup_paths base)))
               (py_print Starting
                  (s\<lparr> cls_instance := Some (next_id s),
                       heap := (heap s)(next_id s := empty_loader),
                       next_id := Suc (next_id s) \<rparr>))))))"
proof -
  let ?s1 = "py_print Starting
                (s\<lparr> cls_instance := Some (next_id s),
                     heap := (heap s)(next_id s := empty_loader),
                     next_id := Suc (next_id s) \<rparr>)"
  have "fst (as_completed_loop lib fs (next_id s) (sched (load_tasks (setup_paths base))) ?s1)
          = Inr ()"
    using assms(1,2) by (simp add: loop_result completes_fails)
  then show ?thesis
    by (cases "as_completed_loop lib fs (next_id s) (sched (load_tasks (setup_paths base))) ?s1")
       (simp add: new_unfold [OF assms(3)])
qed

lemma new_result_cases:
  assumes "completes sched base" and "cls_instance s = None"
  shows "fst (DictionaryLoader_new lib fs sched base s) =
           (if some_load_fails lib fs base then Inl (SystemExit 1) else Inr (next_id s))"
  using new_fails [OF assms(1) _ assms(2), of lib fs] new_succeeds [OF assms(1) _ assms(2), of lib fs]
  by (cases "some_load_fails lib fs base") simp_all

text \<open>The attributes of the new object after a successful construction, whatever the order.\<close>

lemma new_succeeds_attrs:
  assumes "completes sched base" and "\<not> some_load_fails lib fs base" and "cls_instance s = None"
  shows "attrs (heap (snd (DictionaryLoader_new lib fs sched base s)) (next_id s)) k =
           (case find (\<lambda>t. snd t = k) (load_tasks (setup_paths base)) of
              None \<Rightarrow> None
            | Some t \<Rightarrow> (case load_result lib fs (fst t) of Inr d \<Rightarrow> Some d | Inl e \<Rightarrow> None))"
proof -
  let ?ts = "load_tasks (setup_paths base)"
  let ?s1 = "py_print Starting
                (s\<lparr> cls_instance := Some (next_id s),
                     heap := (heap s)(next_id s := empty_loader),
                     next_id := Suc (next_id s) \<rparr>)"
  have ok: "\<forall>t\<in>set (sched ?ts). \<not> isl (load_result lib fs (fst t))"
    using assms(1,2) completes_fails [OF assms(1), of lib fs] by (simp add: list_ex_iff)
  have a: "attrs (heap (snd (DictionaryLoader_new lib fs sched base s)) (next_id s)) k
             = attrs (heap (snd (as_completed_loop lib fs (next_id s) (sched ?ts) ?s1)) (next_id s)) k"
    by (simp add: new_succeeds [OF assms] set_loaded_simps py_print_simps)
  show ?thesis
  proof (cases "find (\<lambda>t. snd t = k) ?ts")
    case None
    then have "k \<notin> snd ` set ?ts" by (auto simp add: find_None_iff)
    then have "k \<notin> snd ` set (sched ?ts)" by (simp add: completes_set [OF assms(1)])
    from loop_attrs_other [OF this, of lib fs "next_id s" ?s1] None show ?thesis
      by (simp add: a py_print_simps empty_loader_def)
  next
    case (Some t)
    then have t: "t \<in> set ?ts" "snd t = k"
      by (auto simp add: find_Some_iff in_set_conv_nth)
    then have t': "t \<in> set (sched ?ts)" by (simp add: completes_set [OF assms(1)])
    with ok obtain d where d: "load_result lib fs (fst t) = Inr d"
      by (cases "load_result lib fs (fst t)") auto
    from loop_attrs_stored [OF ok completes_distinct [OF assms(1)] t' d, of "next_id s" ?s1]
    show ?thesis by (simp add: a Some d t(2))
  qed
qed

lemma new_succeeds_heap:
  assumes "completes sched base" and "\<not> some_load_fails lib fs base" and "cls_instance s = None"
  shows "heap (snd (DictionaryLoader_new lib fs sched base s)) =
           (heap s)(next_id s :=
              \<lparr> attrs = (\<lambda>k. case find (\<lambda>t. snd t = k) (load_tasks (setup_paths base)) of
                               None \<Rightarrow> None
                             | Some t \<Rightarrow> (case load_result lib fs (fst t) of
                                            Inr d \<Rightarrow> Some d | Inl e \<Rightarrow> None)),
                loaded = True \<rparr>)"
proof (rule ext)
  fix ob
  let ?s' = "snd (DictionaryLoader_new lib fs sched base s)"
  let ?l = "\<lparr> attrs = (\<lambda>k. case find (\<lambda>t. snd t = k) (load_tasks (setup_paths base)) of
                               None \<Rightarrow> None
                             | Some t \<Rightarrow> (case load_result lib fs (fst t) of
                                            Inr d \<Rightarrow> Some d | Inl e \<Rightarrow> None)),
                loaded = True \<rparr>"
  show "heap ?s' ob = ((heap s)(next_id s := ?l)) ob"
  proof (cases "ob = next_id s")
    case True
    have "attrs (heap ?s' (next_id s)) = attrs ?l"
      by (rule ext) (simp add: new_succeeds_attrs [OF assms])
    moreover have "loaded (heap ?s' (next_id s)) = loaded ?l"
      by (simp add: new_succeeds [OF assms] set_loaded_simps)
    ultimately have "heap ?s' (next_id s) = ?l" by simp
    with True show ?thesis by simp
  next
    case False
    then show ?thesis
      by (simp add: new_succeeds [OF assms] set_loaded_simps py_print_simps loop_heap_other)
  qed
qed





subsection \<open>The bulk accessor\<close>

lemma getattrs_all:
  "\<forall>k\<in>set ks. attrs l k \<noteq> None \<Longrightarrow>
   \<exists>kvs. getattrs l ks = Inr kvs \<and> map fst kvs = ks \<and> (\<forall>k v. (k, v) \<in> set kvs \<longrightarrow> attrs l k = Some v)"
proof (induction ks)
  case Nil
  show ?case by simp
next
  case (Cons k ks)
  then obtain v where v: "attrs l k = Some v" by auto
  from Cons obtain kvs where "getattrs l ks = Inr kvs" "map fst kvs = ks"
    "\<forall>k v. (k, v) \<in> set kvs \<longrightarrow> attrs l k = Some v" by auto
  with v show ?case by (auto simp add: getattr_def)
qed



lemma new_succeeds_opened:
  assumes "completes sched base" and "\<not> some_load_fails lib fs base" and "cls_instance s = None"
  shows "mset (opened (snd (DictionaryLoader_new lib fs sched base s)))
           = mset (opened s) + mset (map fst (load_tasks (setup_paths base)))"
proof -
  let ?ts = "load_tasks (setup_paths base)"
  have ok: "\<forall>t\<in>set (sched ?ts). \<not> isl (load_result lib fs (fst t))"
    using assms(1,2) completes_fails [OF assms(1), of lib fs] by (simp add: list_ex_iff)
  have "\<forall>p\<in>set (map fst (sched ?ts)). fs p \<noteq> None"
  proof
    fix p assume "p \<in> set (map fst (sched ?ts))"
    then obtain t where "t \<in> set (sched ?ts)" "p = fst t" by auto
    with ok have "\<not> isl (load_result lib fs p)" by simp
    then show "fs p \<noteq> None" by (cases "fs p") (simp_all add: load_result_def try_load_def)
  qed
  then have "filter (\<lambda>p. fs p \<noteq> None) (map fst (sched ?ts)) = map fst (sched ?ts)"
    by (simp add: filter_id_conv)
  moreover have "mset (map fst (sched ?ts)) = mset (map fst ?ts)"
    using assms(1) by (simp add: completes_def)
  ultimately show ?thesis
    by (simp add: new_succeeds [OF assms] set_loaded_simps py_print_simps loop_frame)
qed

text \<open>
  C8. The registry declares eleven tasks, whose keys are pairwise distinct and are the keys
  of the bulk accessor, whose paths are pairwise distinct and lie under the base directory,
  the first seven with the suffix \<open>.pickle\<close> and the last four with \<open>.pbz2\<close>: four
  knowledge-base tables, three main indices and four synthetic counterparts. When the first
  construction returns an object, that object has \<open>_loaded\<close> set and holds a dictionary
  under each of the eleven keys; \<open>all_dictionaries\<close> returns eleven entries, one per key
  in the declared order, each being the result of loading that key's file; and each
  declared file has been opened exactly once.
\<close>

theorem registry_completeness:
  "length (load_tasks (setup_paths base)) = 11
   \<and> logical_keys base = snapshot_keys
   \<and> distinct (logical_keys base)
   \<and> distinct (map fst (load_tasks (setup_paths base)))
   \<and> (\<forall>t\<in>set (load_tasks (setup_paths base)). prefix base (fst t))
   \<and> map (\<lambda>t. endswith (fst t) ''.pickle'') (load_tasks (setup_paths base))
       = replicate 7 True @ replicate 4 False
   \<and> map snd (take 4 (load_tasks (setup_paths base)))
       = [''label_dict'', ''type_dict'', ''class_dict'', ''fact_dict'']
   \<and> map snd (take 3 (drop 4 (load_tasks (setup_paths base))))
       = [''yago_inverted_index'', ''yago_relation_index'', ''main_index_triples'']
   \<and> map snd (drop 7 (load_tasks (setup_paths base)))
       = [''synth_type_kb'', ''synth_relation_kb'',
          ''synth_type_inverted_index'', ''synth_relation_inverted_index'']
   \<and> (\<forall>t\<in>set (drop 7 (load_tasks (setup_paths base))). endswith (fst t) ''.pbz2'')
   \<and> (completes sched base \<and> cls_instance s = None
        \<and> DictionaryLoader_new lib fs sched base s = (Inr ob, s') \<longrightarrow>
          loaded (heap s' ob)
          \<and> fully_populated base (heap s' ob)
          \<and> (\<exists>kvs. all_dictionaries (heap s' ob) = Inr kvs
                \<and> map fst kvs = logical_keys base
                \<and> length kvs = 11
                \<and> (\<forall>t\<in>set (load_tasks (setup_paths base)). \<exists>d.
                       load_result lib fs (fst t) = Inr d \<and> (snd t, d) \<in> set kvs))
          \<and> mset (opened s') = mset (opened s) + mset (map fst (load_tasks (setup_paths base))))"
proof (intro conjI impI)
  show "length (load_tasks (setup_paths base)) = 11" by (simp add: load_tasks_def)
  show "logical_keys base = snapshot_keys" by (rule logical_keys_eq)
  show "distinct (logical_keys base)" by (rule distinct_logical_keys)
  show "distinct (map fst (load_tasks (setup_paths base)))" by (rule distinct_task_paths)
  show "\<forall>t\<in>set (load_tasks (setup_paths base)). prefix base (fst t)"
    by (blast intro: task_paths_under_base)
  show "map (\<lambda>t. endswith (fst t) ''.pickle'') (load_tasks (setup_paths base))
          = replicate 7 True @ replicate 4 False"
    by (simp add: load_tasks_eq endswith_append) (simp add: endswith_def numeral_eq_Suc)
  show "map snd (take 4 (load_tasks (setup_paths base)))
          = [''label_dict'', ''type_dict'', ''class_dict'', ''fact_dict'']"
    by (simp add: load_tasks_def)
  show "map snd (take 3 (drop 4 (load_tasks (setup_paths base))))
          = [''yago_inverted_index'', ''yago_relation_index'', ''main_index_triples'']"
    by (simp add: load_tasks_def)
  show "map snd (drop 7 (load_tasks (setup_paths base)))
          = [''synth_type_kb'', ''synth_relation_kb'',
             ''synth_type_inverted_index'', ''synth_relation_inverted_index'']"
    by (simp add: load_tasks_def)
  show "\<forall>t\<in>set (drop 7 (load_tasks (setup_paths base))). endswith (fst t) ''.pbz2''"
    by (simp add: load_tasks_eq endswith_append) (simp add: endswith_def)
next
  assume a: "completes sched base \<and> cls_instance s = None
               \<and> DictionaryLoader_new lib fs sched base s = (Inr ob, s')"
  then have c: "completes sched base" and n: "cls_instance s = None"
    and r: "DictionaryLoader_new lib fs sched base s = (Inr ob, s')" by simp_all
  from r new_result_cases [OF c n, of lib fs]
  have ok: "\<not> some_load_fails lib fs base" and ob: "ob = next_id s"
    by (simp_all split: if_splits)
  let ?ts = "load_tasks (setup_paths base)"
  let ?l = "\<lparr> attrs = (\<lambda>k. case find (\<lambda>t. snd t = k) ?ts of
                               None \<Rightarrow> None
                             | Some t \<Rightarrow> (case load_result lib fs (fst t) of
                                            Inr d \<Rightarrow> Some d | Inl e \<Rightarrow> None)),
                loaded = True \<rparr>"
  from new_succeeds_heap [OF c ok n, of ] r ob have h: "heap s' ob = ?l" by simp
  have stored: "\<exists>d. load_result lib fs (fst t) = Inr d \<and> attrs (heap s' ob) (snd t) = Some d"
    if t: "t \<in> set ?ts" for t
  proof -
    from ok t obtain d where d: "load_result lib fs (fst t) = Inr d"
      by (cases "load_result lib fs (fst t)") (auto simp add: some_load_fails_def list_ex_iff)
    from t have "find (\<lambda>u. snd u = snd t) ?ts \<noteq> None"
      unfolding find_None_iff by blast
    then obtain u where u: "find (\<lambda>u. snd u = snd t) ?ts = Some u" by blast
    then have "u \<in> set ?ts" "snd u = snd t" by (auto simp add: find_Some_iff in_set_conv_nth)
    with task_key_unique [OF t] have "u = t" by blast
    with u d show ?thesis by (simp add: h)
  qed
  show "loaded (heap s' ob)" by (simp add: h)
  have full: "\<forall>k\<in>set (logical_keys base). attrs (heap s' ob) k \<noteq> None"
    using stored by (fastforce simp add: logical_keys_def)
  then show "fully_populated base (heap s' ob)"
    by (simp add: fully_populated_def list_all_iff)
  from full getattrs_all [of snapshot_keys "heap s' ob"]
  obtain kvs where kvs: "getattrs (heap s' ob) snapshot_keys = Inr kvs" "map fst kvs = snapshot_keys"
    "\<forall>k v. (k, v) \<in> set kvs \<longrightarrow> attrs (heap s' ob) k = Some v"
    by (auto simp add: logical_keys_eq)
  have "\<exists>d. load_result lib fs (fst t) = Inr d \<and> (snd t, d) \<in> set kvs" if t: "t \<in> set ?ts" for t
  proof -
    from stored [OF t] obtain d where d: "load_result lib fs (fst t) = Inr d"
      "attrs (heap s' ob) (snd t) = Some d" by blast
    from t have "snd t \<in> set (logical_keys base)" by (simp add: logical_keys_def)
    then have "snd t \<in> set (map fst kvs)" by (simp only: kvs(2) logical_keys_eq)
    then obtain v where "(snd t, v) \<in> set kvs" by auto
    with kvs(3) d show ?thesis by auto
  qed
  moreover have "length kvs = 11"
    using arg_cong [OF kvs(2), of length] by (simp add: snapshot_keys_def)
  ultimately show "\<exists>kvs. all_dictionaries (heap s' ob) = Inr kvs
                \<and> map fst kvs = logical_keys base
                \<and> length kvs = 11
                \<and> (\<forall>t\<in>set (load_tasks (setup_paths base)). \<exists>d.
                       load_result lib fs (fst t) = Inr d \<and> (snd t, d) \<in> set kvs)"
    using kvs(1,2) by (auto simp add: all_dictionaries_def logical_keys_eq)
  from new_succeeds_opened [OF c ok n] r
  show "mset (opened s') = mset (opened s) + mset (map fst (load_tasks (setup_paths base)))"
    by simp
qed

section \<open>The definitions on concrete inputs\<close>

lemma completes_in_order: "completes in_order base"
  by (simp add: completes_def in_order_def)


lemma init_state_simps:
  "cls_instance init_state = None" "next_id init_state = 0" "opened init_state = []"
  "stdout init_state = []"
  by (simp_all add: init_state_def)


lemmas demo_defs =
  load_result_def try_load_def load_line_def load_pickle_def load_bz2_pickle_def
  demo_fs_without_def demo_fs_with_def demo_fs_def demo_lib_def
  load_tasks_def setup_paths_def path_join_def basename_def endswith_def

lemma demo_all_load: "\<not> some_load_fails demo_lib demo_fs ''/d''"
  by (simp add: some_load_fails_def demo_defs)











theorem registry_completeness_witness:
  "completes in_order ''/d''
   \<and> cls_instance (init_state :: bytes state) = None
   \<and> DictionaryLoader_new demo_lib demo_fs in_order ''/d'' init_state
       = (Inr 0, snd (DictionaryLoader_new demo_lib demo_fs in_order ''/d'' init_state))
   \<and> loaded (heap (snd (DictionaryLoader_new demo_lib demo_fs in_order ''/d'' init_state)) 0)
   \<and> fully_populated ''/d'' (heap (snd (DictionaryLoader_new demo_lib demo_fs in_order ''/d'' init_state)) 0)
   \<and> (\<exists>kvs. all_dictionaries (heap (snd (DictionaryLoader_new demo_lib demo_fs in_order ''/d'' init_state)) 0)
               = Inr kvs \<and> length kvs = 11)
   \<and> mset (opened (snd (DictionaryLoader_new demo_lib demo_fs in_order ''/d'' init_state)))
       = mset (map fst (load_tasks (setup_paths ''/d'')))"
proof -
  let ?r = "DictionaryLoader_new demo_lib demo_fs in_order ''/d'' init_state"
  have h1: "completes in_order ''/d''" by (rule completes_in_order)
  have h2: "cls_instance (init_state :: bytes state) = None" by (rule init_state_simps)
  have "fst ?r = Inr 0"
    by (simp add: new_result_cases [OF h1 h2] demo_all_load init_state_simps)
  then have h3: "?r = (Inr 0, snd ?r)" by (metis prod.collapse)
  from h1 h2 h3
  have h: "completes in_order ''/d'' \<and> cls_instance (init_state :: bytes state) = None
             \<and> ?r = (Inr 0, snd ?r)" by (intro conjI)
  note th = registry_completeness [where base = "''/d''" and sched = in_order and s = init_state
                                    and lib = demo_lib and fs = demo_fs and ob = 0 and s' = "snd ?r",
                                   THEN conjunct2, THEN conjunct2, THEN conjunct2, THEN conjunct2,
                                   THEN conjunct2, THEN conjunct2, THEN conjunct2, THEN conjunct2,
                                   THEN conjunct2, THEN conjunct2, rule_format, OF h]
  from th have 1: "loaded (heap (snd ?r) 0)" by (rule conjunct1)
  from th have 2: "fully_populated ''/d'' (heap (snd ?r) 0)" by (elim conjE)
  from th have 3: "\<exists>kvs. all_dictionaries (heap (snd ?r) 0) = Inr kvs \<and> length kvs = 11"
    by (elim conjE exE) blast
  from th have 4: "mset (opened (snd ?r)) = mset (map fst (load_tasks (setup_paths ''/d'')))"
    by (elim conjE) (simp add: init_state_simps)
  from h1 h2 h3 1 2 3 4 show ?thesis by (intro conjI)
qed

section \<open>Several callers\<close>

subsection \<open>What every reachable state satisfies\<close>











subsection \<open>One caller running alone\<close>

lemma run_threads_Nil: "run_threads lib fs scheds base [] c = c"
  by (simp add: run_threads_def)

lemma run_threads_Cons:
  "run_threads lib fs scheds base (i # run) c
     = run_threads lib fs scheds base run (sched_step lib fs scheds base i c)"
  by (simp add: run_threads_def)

lemma run_threads_append:
  "run_threads lib fs scheds base (xs @ ys) c
     = run_threads lib fs scheds base ys (run_threads lib fs scheds base xs c)"
  by (simp add: run_threads_def)

lemma sched_step_at:
  "i < length ps \<Longrightarrow> thread_step lib fs (scheds i) base (ps ! i) s = (p', s') \<Longrightarrow>
   sched_step lib fs scheds base i \<lparr> shared = s, pcs = ps \<rparr> = \<lparr> shared = s', pcs = ps[i := p'] \<rparr>"
  by (simp add: sched_step_def)

lemma run_loading_ok:
  assumes "i < length ps" and "ps ! i = Loading ob ts"
    and "\<forall>t\<in>set ts. \<not> isl (load_result lib fs (fst t))"
  shows "run_threads lib fs scheds base (replicate (length ts) i) \<lparr> shared = s, pcs = ps \<rparr>
           = \<lparr> shared = snd (as_completed_loop lib fs ob ts s), pcs = ps[i := Loading ob []] \<rparr>"
  using assms
proof (induction ts arbitrary: s ps)
  case Nil
  then show ?case by (simp add: run_threads_Nil) (metis list_update_id)
next
  case (Cons t rest)
  from Cons.prems(3) obtain d where d: "load_result lib fs (fst t) = Inr d"
    by (cases "load_result lib fs (fst t)") auto
  let ?s1 = "py_print (Successfully_loaded (basename (fst t)))
               (setattr ob (snd t) d (run_task lib fs (fst t) s))"
  have "thread_step lib fs (scheds i) base (ps ! i) s = (Loading ob rest, ?s1)"
    by (simp add: Cons.prems(2) handle_completion_ok [OF d])
  from sched_step_at [where scheds = scheds, OF Cons.prems(1) this]
  have step: "sched_step lib fs scheds base i \<lparr> shared = s, pcs = ps \<rparr>
                = \<lparr> shared = ?s1, pcs = ps[i := Loading ob rest] \<rparr>" .
  from Cons.prems have "i < length (ps[i := Loading ob rest])"
    "ps[i := Loading ob rest] ! i = Loading ob rest"
    "\<forall>t\<in>set rest. \<not> isl (load_result lib fs (fst t))" by simp_all
  from Cons.IH [OF this, of ?s1] show ?case
    by (simp add: run_threads_Cons step loop_Cons_ok [OF d] del: as_completed_loop.simps)
qed

lemma run_stutter:
  assumes "i < length ps" and "ps ! i = Returned r"
  shows "run_threads lib fs scheds base (replicate k i) \<lparr> shared = s, pcs = ps \<rparr>
           = \<lparr> shared = s, pcs = ps \<rparr>"
proof (induction k)
  case 0
  show ?case by (simp add: run_threads_Nil)
next
  case (Suc k)
  have "ps[i := Returned r] = ps" using assms(2) by (metis list_update_id)
  then have "sched_step lib fs scheds base i \<lparr> shared = s, pcs = ps \<rparr>
                     = \<lparr> shared = s, pcs = ps \<rparr>"
    by (simp add: sched_step_def assms)
  with Suc show ?case by (simp add: run_threads_Cons)
qed

text \<open>A caller that finds \<open>_instance\<close> set returns it in two statements.\<close>

lemma solo_later:
  assumes "i < length ps" and "ps ! i = New_check" and "cls_instance s = Some ob"
  shows "run_threads lib fs scheds base (replicate (Suc (Suc k)) i) \<lparr> shared = s, pcs = ps \<rparr>
           = \<lparr> shared = s, pcs = ps[i := Returned (Some ob)] \<rparr>"
proof -
  have "thread_step lib fs (scheds i) base (ps ! i) s = (New_return, s)"
    by (simp add: assms(2,3))
  from sched_step_at [where scheds = scheds, OF assms(1) this]
  have 1: "sched_step lib fs scheds base i \<lparr> shared = s, pcs = ps \<rparr>
             = \<lparr> shared = s, pcs = ps[i := New_return] \<rparr>" .
  have "thread_step lib fs (scheds i) base (ps[i := New_return] ! i) s = (Returned (Some ob), s)"
    using assms(1,3) by simp
  from sched_step_at [where scheds = scheds, OF _ this] assms(1)
  have 2: "sched_step lib fs scheds base i \<lparr> shared = s, pcs = ps[i := New_return] \<rparr>
             = \<lparr> shared = s, pcs = ps[i := Returned (Some ob)] \<rparr>" by simp
  from assms(1) have "i < length (ps[i := Returned (Some ob)])"
    "ps[i := Returned (Some ob)] ! i = Returned (Some ob)" by simp_all
  from run_stutter [OF this] 1 2 show ?thesis by (simp add: run_threads_Cons)
qed

text \<open>
  A caller that has passed the test of line 17 and is not interrupted from line 18 on, when
  every load succeeds: after the three statements before the loop, one per future, and the
  two after it, it has initialized the object it created and is about to return.
\<close>

lemma solo_from_create:
  assumes i: "i < length ps" and p: "ps ! i = New_create"
    and c: "completes (scheds i) base" and ok: "\<not> some_load_fails lib fs base"
  shows "run_threads lib fs scheds base (replicate 16 i) \<lparr> shared = s, pcs = ps \<rparr>
           = \<lparr> shared =
                 set_loaded (next_id s) (py_print All_loaded
                   (snd (as_completed_loop lib fs (next_id s) (scheds i (load_tasks (setup_paths base)))
                          (py_print Starting
                             (s\<lparr> cls_instance := Some (next_id s),
                                  heap := (heap s)(next_id s := empty_loader),
                                  next_id := Suc (next_id s) \<rparr>))))),
               pcs = ps[i := New_return] \<rparr>"
proof -
  let ?ob = "next_id s"
  let ?ts = "scheds i (load_tasks (setup_paths base))"
  let ?s1 = "s\<lparr> cls_instance := Some ?ob, heap := (heap s)(?ob := empty_loader),
                 next_id := Suc ?ob \<rparr>"
  let ?s2 = "py_print Starting ?s1"
  let ?s3 = "snd (as_completed_loop lib fs ?ob ?ts ?s2)"
  let ?s4 = "py_print All_loaded ?s3"
  let ?s5 = "set_loaded ?ob ?s4"
  let ?run = "run_threads lib fs scheds base"
  have len: "length ?ts = 11"
    using mset_eq_length [OF c [unfolded completes_def]] by (simp add: load_tasks_def)
  have oks: "\<forall>t\<in>set ?ts. \<not> isl (load_result lib fs (fst t))"
    using ok completes_fails [OF c, of lib fs] by (simp add: list_ex_iff)
  have a: "?run (replicate 3 i) \<lparr> shared = s, pcs = ps \<rparr>
             = \<lparr> shared = ?s2, pcs = ps[i := Loading ?ob ?ts] \<rparr>"
    using i p
    by (simp add: numeral_eq_Suc run_threads_Cons run_threads_Nil sched_step_def empty_loader_def)
  have b: "?run (replicate 11 i) \<lparr> shared = ?s2, pcs = ps[i := Loading ?ob ?ts] \<rparr>
             = \<lparr> shared = ?s3, pcs = ps[i := Loading ?ob []] \<rparr>"
    using run_loading_ok [of i "ps[i := Loading ?ob ?ts]" ?ob ?ts lib fs scheds base ?s2] i oks
    by (simp add: len)
  have d: "?run (replicate 2 i) \<lparr> shared = ?s3, pcs = ps[i := Loading ?ob []] \<rparr>
             = \<lparr> shared = ?s5, pcs = ps[i := New_return] \<rparr>"
    using i
    by (simp add: numeral_eq_Suc run_threads_Cons run_threads_Nil sched_step_def)
  have "replicate 16 i = replicate 3 i @ replicate 11 i @ replicate 2 i"
    by (simp add: replicate_add [symmetric])
  then show ?thesis
    by (simp only: run_threads_append a b d)
qed

text \<open>
  A caller that finds \<open>_instance\<close> empty and is not interrupted at all: the shared state
  is then the one \<open>DictionaryLoader_new\<close> computes, and the caller has the new object.
\<close>

lemma solo_first:
  assumes i: "i < length ps" and p: "ps ! i = New_check" and n: "cls_instance s = None"
    and c: "completes (scheds i) base" and ok: "\<not> some_load_fails lib fs base"
  shows "run_threads lib fs scheds base (replicate 18 i) \<lparr> shared = s, pcs = ps \<rparr>
           = \<lparr> shared = snd (DictionaryLoader_new lib fs (scheds i) base s),
               pcs = ps[i := Returned (Some (next_id s))] \<rparr>"
proof -
  let ?run = "run_threads lib fs scheds base"
  let ?s5 = "snd (DictionaryLoader_new lib fs (scheds i) base s)"
  have a: "?run [i] \<lparr> shared = s, pcs = ps \<rparr> = \<lparr> shared = s, pcs = ps[i := New_create] \<rparr>"
    using i p n by (simp add: run_threads_Cons run_threads_Nil sched_step_def)
  from i have "i < length (ps[i := New_create])" "ps[i := New_create] ! i = New_create" by simp_all
  from solo_from_create [where scheds = scheds and s = s, OF this c ok]
  have b: "?run (replicate 16 i) \<lparr> shared = s, pcs = ps[i := New_create] \<rparr>
             = \<lparr> shared = ?s5, pcs = ps[i := New_return] \<rparr>"
    by (simp add: new_succeeds [OF c ok n])
  have "cls_instance ?s5 = Some (next_id s)"
    by (simp add: new_succeeds [OF c ok n] set_loaded_simps py_print_simps loop_frame)
  then have d: "?run [i] \<lparr> shared = ?s5, pcs = ps[i := New_return] \<rparr>
             = \<lparr> shared = ?s5, pcs = ps[i := Returned (Some (next_id s))] \<rparr>"
    using i by (simp add: run_threads_Cons run_threads_Nil sched_step_def)
  have "replicate 18 i = [i] @ replicate 16 i @ [i]"
    by (simp add: numeral_eq_Suc replicate_append_same)
  then show ?thesis
    by (simp only: run_threads_append a b d)
qed

subsection \<open>Callers one after another\<close>

lemma replicate_update_first: "0 < n \<Longrightarrow> (replicate n x)[0 := y] = y # replicate (n - 1) x"
  by (cases n) simp_all

lemma sequential_run:
  assumes c: "\<forall>i. completes (scheds i) base" and ok: "\<not> some_load_fails lib fs base"
  shows "j < n \<Longrightarrow>
         run_threads lib fs scheds base (concat (map (replicate 18) [0..<Suc j])) (start n)
           = \<lparr> shared = snd (DictionaryLoader_new lib fs (scheds 0) base init_state),
               pcs = replicate (Suc j) (Returned (Some 0)) @ replicate (n - Suc j) New_check \<rparr>"
proof (induction j)
  case 0
  from c have c0: "completes (scheds 0) base" by simp
  from 0 have "0 < length (replicate n New_check)" "replicate n New_check ! 0 = New_check"
    by simp_all
  from solo_first [where scheds = scheds and s = init_state, OF this _ c0 ok] 0
  show ?case
    by (simp add: start_def init_state_simps replicate_update_first)
next
  case (Suc j)
  let ?S = "snd (DictionaryLoader_new lib fs (scheds 0) base init_state)"
  let ?R = "Returned (Some 0)"
  let ?ps = "replicate (Suc j) ?R @ replicate (n - Suc j) New_check"
  from Suc.prems have j: "j < n" and m: "0 < n - Suc j" by simp_all
  from c have c0: "completes (scheds 0) base" by simp
  have cls: "cls_instance ?S = Some 0"
    by (simp add: new_succeeds [OF c0 ok] init_state_simps set_loaded_simps py_print_simps loop_frame)
  have len: "Suc j < length ?ps" using Suc.prems by simp
  have at: "?ps ! Suc j = New_check" using m by (simp add: nth_append)
  have upd: "?ps[Suc j := ?R] = replicate (Suc (Suc j)) ?R @ replicate (n - Suc (Suc j)) New_check"
    using m by (simp add: list_update_append replicate_update_first replicate_append_same)
  have "[0..<Suc (Suc j)] = [0..<Suc j] @ [Suc j]" by simp
  then have "concat (map (replicate 18) [0..<Suc (Suc j)])
               = concat (map (replicate 18) [0..<Suc j]) @ replicate (Suc (Suc 16)) (Suc j)"
    by (simp only: map_append concat_append) simp
  then show ?case
    using solo_later [where scheds = scheds, OF len at cls, of lib fs base 16]
    by (simp only: run_threads_append Suc.IH [OF j] upd)
qed

text \<open>
  C4, as the code has it. When the calls of \<open>DictionaryLoader()\<close> are executed one after
  another, each to its return before the next one starts, and every load succeeds: all
  \<open>n\<close> callers return the same object; each declared file has been opened exactly once;
  and any further construction returns that object and leaves the state as it is, so it
  reads no file. Eighteen statements take a caller to its return (four before the loop, one
  per future, three after it; a caller that finds \<open>_instance\<close> set needs two and then
  stays where it is), so the run gives each caller eighteen in turn. Nothing in the module
  makes the calls wait for one another (see the counterexample).
\<close>

theorem one_time_initialization:
  assumes "\<forall>i. completes (scheds i) base" and "\<not> some_load_fails lib fs base" and "0 < n"
  shows "pcs (run_threads lib fs scheds base (concat (map (replicate 18) [0..<n])) (start n))
           = replicate n (Returned (Some 0))
       \<and> mset (opened (shared (run_threads lib fs scheds base
                                  (concat (map (replicate 18) [0..<n])) (start n))))
           = mset (map fst (load_tasks (setup_paths base)))
       \<and> (\<forall>lib' fs' sched'.
             DictionaryLoader_new lib' fs' sched' base
               (shared (run_threads lib fs scheds base (concat (map (replicate 18) [0..<n])) (start n)))
             = (Inr 0, shared (run_threads lib fs scheds base
                                 (concat (map (replicate 18) [0..<n])) (start n))))"
proof -
  from assms(3) obtain j where n: "n = Suc j" by (cases n) auto
  then have j: "j < n" by simp
  from assms(1) have c0: "completes (scheds 0) base" by simp
  let ?S = "snd (DictionaryLoader_new lib fs (scheds 0) base init_state)"
  have r: "run_threads lib fs scheds base (concat (map (replicate 18) [0..<n])) (start n)
             = \<lparr> shared = ?S, pcs = replicate n (Returned (Some 0)) \<rparr>"
    using sequential_run [OF assms(1,2) j] by (simp add: n)
  have cls: "cls_instance ?S = Some 0"
    by (simp add: new_succeeds [OF c0 assms(2)] init_state_simps set_loaded_simps py_print_simps
                  loop_frame)
  have op: "mset (opened ?S) = mset (map fst (load_tasks (setup_paths base)))"
    using new_succeeds_opened [OF c0 assms(2), of init_state] by (simp add: init_state_simps)
  show ?thesis
    by (simp add: r op new_again [OF cls])
qed

lemma start_2: "start 2 = \<lparr> shared = init_state, pcs = [New_check, New_check] \<rparr>"
  by (simp add: start_def numeral_2_eq_2)




theorem one_time_initialization_witness:
  "(\<forall>i. completes ((\<lambda>_. in_order) i) ''/d'')
   \<and> \<not> some_load_fails demo_lib demo_fs ''/d''
   \<and> (0::nat) < 2
   \<and> pcs (run_threads demo_lib demo_fs (\<lambda>_. in_order) ''/d''
             (concat (map (replicate 18) [0..<2])) (start 2))
       = replicate 2 (Returned (Some 0))
   \<and> mset (opened (shared (run_threads demo_lib demo_fs (\<lambda>_. in_order) ''/d''
                               (concat (map (replicate 18) [0..<2])) (start 2))))
       = mset (map fst (load_tasks (setup_paths ''/d'')))"
proof -
  have h1: "\<forall>i. completes ((\<lambda>_. in_order) i) ''/d''" by (simp add: completes_in_order)
  have h2: "\<not> some_load_fails demo_lib demo_fs ''/d''" by (rule demo_all_load)
  have h3: "(0::nat) < 2" by simp
  note th = one_time_initialization [where scheds = "\<lambda>_. in_order" and base = "''/d''"
                                      and lib = demo_lib and fs = demo_fs and n = 2, OF h1 h2 h3]
  from h1 h2 h3 th [THEN conjunct1] th [THEN conjunct2, THEN conjunct1]
  show ?thesis by (intro conjI)
qed

text \<open>
  C4 as stated fails. Two callers both pass the test of line 17 before either has assigned
  \<open>_instance\<close>. Each then creates an object and initializes it: the initialization runs
  twice, two objects are loaded, and every declared file is opened twice.
\<close>

theorem one_time_initialization_counterexample:
  "pcs race_run = [Returned (Some 1), Returned (Some 1)]
   \<and> opened (shared race_run)
       = map fst (load_tasks (setup_paths ''/d'')) @ map fst (load_tasks (setup_paths ''/d''))
   \<and> loaded (heap (shared race_run) 0)
   \<and> loaded (heap (shared race_run) 1)"
proof -
  let ?run = "run_threads demo_lib demo_fs (\<lambda>_. in_order) ''/d''"
  let ?ts = "load_tasks (setup_paths ''/d'')"
  let ?init = "\<lambda>s. set_loaded (next_id s) (py_print All_loaded
                   (snd (as_completed_loop demo_lib demo_fs (next_id s) ?ts
                          (py_print Starting
                             (s\<lparr> cls_instance := Some (next_id s),
                                  heap := (heap s)(next_id s := empty_loader),
                                  next_id := Suc (next_id s) \<rparr>)))))"
  let ?S0 = "?init (init_state :: bytes state)"
  let ?S1 = "?init ?S0"
  have c: "completes ((\<lambda>_. in_order) i) ''/d''" for i :: nat by (simp add: completes_in_order)
  have a: "?run [0, 1] (start 2) = \<lparr> shared = init_state, pcs = [New_create, New_create] \<rparr>"
    by (simp add: start_2 run_threads_Cons run_threads_Nil sched_step_def init_state_simps)
  have b: "?run (replicate 16 0) \<lparr> shared = init_state, pcs = [New_create, New_create] \<rparr>
             = \<lparr> shared = ?S0, pcs = [New_return, New_create] \<rparr>"
    using solo_from_create [where scheds = "\<lambda>_. in_order" and i = 0
                              and ps = "[New_create, New_create]" and s = init_state
                              and base = "''/d''" and lib = demo_lib and fs = demo_fs,
                            OF _ _ c demo_all_load]
    by (simp add: in_order_def)
  have d: "?run (replicate 16 1) \<lparr> shared = ?S0, pcs = [New_return, New_create] \<rparr>
             = \<lparr> shared = ?S1, pcs = [New_return, New_return] \<rparr>"
    using solo_from_create [where scheds = "\<lambda>_. in_order" and i = 1
                              and ps = "[New_return, New_create]" and s = ?S0
                              and base = "''/d''" and lib = demo_lib and fs = demo_fs,
                            OF _ _ c demo_all_load]
    by (simp add: in_order_def)
  have n0: "next_id ?S0 = 1"
    by (simp add: set_loaded_simps py_print_simps loop_frame init_state_simps)
  have cls: "cls_instance ?S1 = Some 1"
    by (simp add: set_loaded_simps py_print_simps loop_frame init_state_simps)
  have e: "?run [0, 1] \<lparr> shared = ?S1, pcs = [New_return, New_return] \<rparr>
             = \<lparr> shared = ?S1, pcs = [Returned (Some 1), Returned (Some 1)] \<rparr>"
    using cls by (simp add: run_threads_Cons run_threads_Nil sched_step_def)
  have r: "race_run = \<lparr> shared = ?S1, pcs = [Returned (Some 1), Returned (Some 1)] \<rparr>"
    unfolding race_run_def by (simp only: run_threads_append a b d e)
  have ex: "filter (\<lambda>p. \<exists>y. demo_fs p = Some y) (map fst ?ts) = map fst ?ts"
    by (simp add: demo_fs_def)
  have 1: "pcs race_run = [Returned (Some 1), Returned (Some 1)]" by (simp add: r)
  have 2: "opened (shared race_run) = map fst ?ts @ map fst ?ts"
    by (simp add: r set_loaded_simps py_print_simps loop_frame ex init_state_simps)
  have l0: "loaded (heap ?S0 0)"
    by (simp add: set_loaded_simps init_state_simps)
  have 3: "loaded (heap (shared race_run) 0)"
    using l0 by (simp add: r set_loaded_simps py_print_simps loop_heap_other loop_frame init_state_simps)
  have 4: "loaded (heap (shared race_run) 1)"
    by (simp add: r set_loaded_simps py_print_simps loop_frame init_state_simps)
  from 1 2 3 4 show ?thesis by (intro conjI)
qed

end
